theory Spec2Isabelle
  imports Complex_Main
begin

section \<open>Token-bucket admission middleware (src/index.ts)\<close>

text \<open>
  The middleware \<^verbatim>\<open>tokenBucket\<close> keeps one bucket per client key in a module-level
  \<^verbatim>\<open>Map\<close>, refills it lazily from the elapsed wall-clock time and charges one token
  per admitted request.

  Numbers. A JavaScript \<^verbatim>\<open>number\<close> is modelled as a \<^typ>\<open>real\<close>: the arithmetic of
  the source (\<^verbatim>\<open>-\<close>, \<^verbatim>\<open>/\<close>, \<^verbatim>\<open>*\<close>, \<^verbatim>\<open>+\<close>, \<^verbatim>\<open>Math.min\<close>, comparisons) is
  taken exactly, without the rounding of IEEE doubles. Timestamps are the milliseconds
  that \<^verbatim>\<open>Date.now()\<close> returns; the clock reading is an input of the model.
\<close>

subsection \<open>Data\<close>

text \<open>\<^verbatim>\<open>type Bucket = { tokens: number; last: number }\<close> (lines 15-18). The field
  \<^verbatim>\<open>last\<close> is named \<open>last_ms\<close> here, since \<open>last\<close> is a list function of HOL.\<close>

record bucket =
  tokens :: real
  last_ms :: real

text \<open>The constants of lines 21-22. (\<^verbatim>\<open>REFILL_INTERVAL\<close> of line 23 is never used
  by the source: the refill divides by the literal 1000.)\<close>

definition RATE :: real where
  "RATE = 10"

definition CAPACITY :: real where
  "CAPACITY = 50"

text \<open>\<^verbatim>\<open>const buckets = new Map<string, Bucket>()\<close> (line 26).\<close>

type_synonym store = "string \<rightharpoonup> bucket"

text \<open>
  What \<^verbatim>\<open>getKey\<close> reads of an Express request: \<^verbatim>\<open>req.ip\<close>,
  \<^verbatim>\<open>req.headers['x-forwarded-for']\<close> and \<^verbatim>\<open>req.socket.remoteAddress\<close>. Each is a
  string or \<^verbatim>\<open>undefined\<close> (\<open>None\<close>); Node joins a repeated forwarded-for header
  into one string, so the header never arrives as an array.
\<close>

record request =
  ip :: "string option"
  x_forwarded_for :: "string option"
  remoteAddress :: "string option"

text \<open>
  What the middleware does with the pipeline: it calls \<^verbatim>\<open>next()\<close>, or it answers
  itself with \<^verbatim>\<open>res.status(code).json({ error: message })\<close>.
\<close>

datatype effect = Next | Respond nat string

subsection \<open>Client key\<close>

text \<open>JavaScript truthiness of a value that is a string or \<^verbatim>\<open>undefined\<close>: only a
  non-empty string is truthy.\<close>

definition truthy :: "string option \<Rightarrow> bool" where
  "truthy v = (case v of None \<Rightarrow> False | Some str \<Rightarrow> str \<noteq> [])"

text \<open>\<^verbatim>\<open>a || b\<close>: the left operand when it is truthy, otherwise the right one,
  whatever it is.\<close>

definition js_or :: "string option \<Rightarrow> string option \<Rightarrow> string option" where
  "js_or a b = (if truthy a then a else b)"

text \<open>\<^verbatim>\<open>getKey\<close> (lines 29-32):
  \<^verbatim>\<open>req.ip || req.headers['x-forwarded-for'] || req.socket.remoteAddress\<close>.\<close>

definition getKey :: "request \<Rightarrow> string option" where
  "getKey req = js_or (js_or (ip req) (x_forwarded_for req)) (remoteAddress req)"

text \<open>\<^verbatim>\<open>const key = getKey(req) || 'anon'\<close> (line 37).\<close>

definition clientKey :: "request \<Rightarrow> string" where
  "clientKey req = (case js_or (getKey req) (Some ''anon'') of Some k \<Rightarrow> k | None \<Rightarrow> ''anon'')"

subsection \<open>The middleware\<close>

text \<open>Lines 39-45: \<^verbatim>\<open>buckets.get(key)\<close>, and a full bucket stamped with the current
  time when the key is new.\<close>

definition fetch :: "store \<Rightarrow> string \<Rightarrow> real \<Rightarrow> bucket" where
  "fetch buckets key now =
     (case buckets key of
        None \<Rightarrow> \<lparr>tokens = CAPACITY, last_ms = now\<rparr>
      | Some bucket \<Rightarrow> bucket)"

text \<open>Lines 48-53: the refill.\<close>

definition refill :: "real \<Rightarrow> bucket \<Rightarrow> bucket" where
  "refill now bucket =
     (let delta = (now - last_ms bucket) / 1000
      in if delta > 0
         then bucket\<lparr>tokens := min CAPACITY (tokens bucket + delta * RATE), last_ms := now\<rparr>
         else bucket)"

text \<open>\<^verbatim>\<open>const cost = 1\<close> (line 56).\<close>

definition cost :: real where
  "cost = 1"

text \<open>The body of the 429 answer (line 64); the dash of the source is the three
  bytes of U+2014 in UTF-8.\<close>

definition errorBody :: string where
  "errorBody = ''Too many requests '' @ [CHR 0xE2, CHR 0x80, CHR 0x94] @ '' slow down''"

text \<open>
  \<^verbatim>\<open>tokenBucket\<close> (lines 35-65). The bucket object is mutated in place and is the
  one the \<^verbatim>\<open>Map\<close> holds, so the model writes the bucket back under its key. The
  clock reading \<open>now\<close> and the store are passed in; the result is the effect on the
  pipeline and the store afterwards.
\<close>

definition tokenBucket :: "request \<Rightarrow> real \<Rightarrow> store \<Rightarrow> effect \<times> store" where
  "tokenBucket req now buckets =
     (let key = clientKey req;
          bucket = refill now (fetch buckets key now)
      in if tokens bucket \<ge> cost
         then (Next, buckets(key \<mapsto> bucket\<lparr>tokens := tokens bucket - cost\<rparr>))
         else (Respond 429 errorBody, buckets(key \<mapsto> bucket)))"

subsection \<open>Sequences of requests\<close>

text \<open>A call is a request together with the clock reading of its invocation.
  \<open>run\<close> is the store after a sequence of calls, \<open>verdicts\<close> the effects in order.\<close>

fun run :: "(request \<times> real) list \<Rightarrow> store \<Rightarrow> store" where
  "run [] buckets = buckets"
| "run ((req, now) # calls) buckets = run calls (snd (tokenBucket req now buckets))"

fun verdicts :: "(request \<times> real) list \<Rightarrow> store \<Rightarrow> effect list" where
  "verdicts [] buckets = []"
| "verdicts ((req, now) # calls) buckets =
     fst (tokenBucket req now buckets) # verdicts calls (snd (tokenBucket req now buckets))"

text \<open>The request of the spec's concrete scenario: the client whose key is \<^verbatim>\<open>k\<close>.\<close>

definition req_k :: request where
  "req_k = \<lparr>ip = Some ''k'', x_forwarded_for = None, remoteAddress = None\<rparr>"

text \<open>A second client, seen through a proxy: no \<^verbatim>\<open>req.ip\<close>, so its key is the
  forwarded-for header.\<close>

definition req_a :: request where
  "req_a = \<lparr>ip = None, x_forwarded_for = Some ''10.0.0.7'', remoteAddress = Some ''127.0.0.1''\<rparr>"

text \<open>The store invariant of the data model: every bucket holds between 0 and
  \<open>CAPACITY\<close> tokens.\<close>

definition store_ok :: "store \<Rightarrow> bool" where
  "store_ok buckets = (\<forall>k b. buckets k = Some b \<longrightarrow> 0 \<le> tokens b \<and> tokens b \<le> CAPACITY)"

section \<open>Properties\<close>

subsection \<open>Client key\<close>

lemma truthy_Some [simp]: "truthy (Some k) = (k \<noteq> [])"
  by (simp add: truthy_def)

lemma truthy_None [simp]: "\<not> truthy None"
  by (simp add: truthy_def)

text \<open>
  Claim C8. The key of a request is never the empty string, and it is chosen in the
  order: \<^verbatim>\<open>req.ip\<close>, then the forwarded-for header, then the socket's remote
  address, then the literal \<^verbatim>\<open>anon\<close>; a source counts as unavailable when it is
  \<^verbatim>\<open>undefined\<close> or the empty string.
\<close>

theorem clientKey_preference:
  "clientKey req \<noteq> [] \<and>
   Some (clientKey req) =
     (if truthy (ip req) then ip req
      else if truthy (x_forwarded_for req) then x_forwarded_for req
      else if truthy (remoteAddress req) then remoteAddress req
      else Some ''anon'')"
  by (cases "ip req"; cases "x_forwarded_for req"; cases "remoteAddress req")
     (simp_all add: clientKey_def getKey_def js_or_def)


lemma clientKey_req_a [simp]: "clientKey req_a = ''10.0.0.7''"
  by (simp add: req_a_def clientKey_def getKey_def js_or_def)

lemma clientKey_req_k [simp]: "clientKey req_k = ''k''"
  by (simp add: req_k_def clientKey_def getKey_def js_or_def)

subsection \<open>Capacity bound\<close>

lemma refill_bounds:
  "0 \<le> tokens b \<Longrightarrow> tokens b \<le> CAPACITY \<Longrightarrow>
   0 \<le> tokens (refill now b) \<and> tokens (refill now b) \<le> CAPACITY"
  by (simp add: refill_def Let_def CAPACITY_def RATE_def)

lemma fetch_bounds:
  "store_ok s \<Longrightarrow> 0 \<le> tokens (fetch s k now) \<and> tokens (fetch s k now) \<le> CAPACITY"
  by (auto simp: fetch_def store_ok_def CAPACITY_def split: option.splits)

lemma tokenBucket_store_ok:
  assumes "store_ok s"
  shows "store_ok (snd (tokenBucket req now s))"
proof -
  let ?b = "refill now (fetch s (clientKey req) now)"
  have b: "0 \<le> tokens ?b \<and> tokens ?b \<le> CAPACITY"
    using fetch_bounds [OF assms] refill_bounds by blast
  show ?thesis
    using assms b
    by (auto simp: tokenBucket_def Let_def store_ok_def cost_def)
qed

lemma run_store_ok: "store_ok s \<Longrightarrow> store_ok (run calls s)"
  by (induction calls s rule: run.induct) (simp_all add: tokenBucket_store_ok)

lemma store_ok_empty: "store_ok Map.empty"
  by (simp add: store_ok_def)


text \<open>
  Claim C1. After any sequence of calls on the initially empty store, with any
  requests and any clock readings, every bucket of the store holds between 0 and
  \<open>CAPACITY\<close> tokens. A further refill at any time keeps it at most \<open>CAPACITY\<close>, and
  after an idle time of more than \<open>CAPACITY / RATE\<close> seconds it gives exactly
  \<open>CAPACITY\<close>.
\<close>

theorem capacity_bound:
  assumes "run calls Map.empty k = Some b"
  shows "0 \<le> tokens b \<and> tokens b \<le> CAPACITY \<and>
         tokens (refill now b) \<le> CAPACITY \<and>
         (CAPACITY / RATE < (now - last_ms b) / 1000 \<longrightarrow> tokens (refill now b) = CAPACITY)"
proof -
  have "store_ok (run calls Map.empty)"
    by (rule run_store_ok [OF store_ok_empty])
  with assms have b: "0 \<le> tokens b \<and> tokens b \<le> CAPACITY"
    by (simp add: store_ok_def)
  have "tokens (refill now b) = CAPACITY" if "CAPACITY / RATE < (now - last_ms b) / 1000"
    using that b by (auto simp: refill_def Let_def CAPACITY_def RATE_def min_def field_simps)
  with b refill_bounds [of b now] show ?thesis
    by simp
qed

theorem capacity_bound_witness:
  "run [(req_k, 0), (req_k, 9000)] Map.empty ''k'' = Some \<lparr>tokens = 49, last_ms = 9000\<rparr> \<and>
   CAPACITY / RATE < (20000 - 9000) / 1000 \<and>
   tokens (refill 20000 \<lparr>tokens = 49, last_ms = 9000\<rparr>) = CAPACITY"
  using capacity_bound [of "[(req_k, 0), (req_k, 9000)]" "''k''" "\<lparr>tokens = 49, last_ms = 9000\<rparr>" 20000]
  by (simp add: tokenBucket_def fetch_def refill_def CAPACITY_def RATE_def cost_def)

subsection \<open>Single calls and bursts\<close>

lemma refill_not_later: "now \<le> last_ms b \<Longrightarrow> refill now b = b"
  by (simp add: refill_def Let_def)

lemma verdicts_append:
  "verdicts (xs @ ys) s = verdicts xs s @ verdicts ys (run xs s)"
  by (induction xs s rule: run.induct) simp_all

lemma run_append: "run (xs @ ys) s = run ys (run xs s)"
  by (induction xs s rule: run.induct) simp_all

lemma tokenBucket_admit:
  assumes "s (clientKey req) = Some b" and "now \<le> last_ms b" and "cost \<le> tokens b"
  shows "tokenBucket req now s = (Next, s(clientKey req \<mapsto> b\<lparr>tokens := tokens b - cost\<rparr>))"
  using assms by (simp add: tokenBucket_def fetch_def refill_not_later)

lemma tokenBucket_reject:
  assumes "s (clientKey req) = Some b" and "now \<le> last_ms b" and "tokens b < cost"
  shows "tokenBucket req now s = (Respond 429 errorBody, s(clientKey req \<mapsto> b))"
  using assms by (simp add: tokenBucket_def fetch_def refill_not_later)

lemma tokenBucket_fresh:
  assumes "s (clientKey req) = None"
  shows "tokenBucket req now s =
           (Next, s(clientKey req \<mapsto> \<lparr>tokens = CAPACITY - cost, last_ms = now\<rparr>))"
  using assms by (simp add: tokenBucket_def fetch_def refill_def CAPACITY_def cost_def)

lemma burst_admitted:
  "s (clientKey req) = Some \<lparr>tokens = real m, last_ms = now\<rparr> \<Longrightarrow> n \<le> m \<Longrightarrow>
   verdicts (replicate n (req, now)) s = replicate n Next \<and>
   run (replicate n (req, now)) s (clientKey req) = Some \<lparr>tokens = real (m - n), last_ms = now\<rparr>"
proof (induction n arbitrary: m s)
  case 0
  then show ?case by simp
next
  case (Suc n)
  let ?k = "clientKey req"
  let ?s = "s(?k \<mapsto> \<lparr>tokens = real (m - 1), last_ms = now\<rparr>)"
  from Suc.prems have m: "1 \<le> m" and n: "n \<le> m - 1"
    by simp_all
  have step: "tokenBucket req now s = (Next, ?s)"
    using tokenBucket_admit [of s req "\<lparr>tokens = real m, last_ms = now\<rparr>" now] Suc.prems(1) m
    by (simp add: cost_def of_nat_diff)
  have "verdicts (replicate n (req, now)) ?s = replicate n Next \<and>
        run (replicate n (req, now)) ?s ?k = Some \<lparr>tokens = real (m - 1 - n), last_ms = now\<rparr>"
  proof (rule Suc.IH)
    show "?s ?k = Some \<lparr>tokens = real (m - 1), last_ms = now\<rparr>"
      by simp
    show "n \<le> m - 1"
      by (rule n)
  qed
  then show ?case
    by (simp add: step)
qed

text \<open>
  Claim C2. For a key the store does not hold, the bucket is created with
  \<open>CAPACITY\<close> tokens and the current time; \<open>CAPACITY\<close> requests at that same time are
  all admitted, and one more request at that time is answered with 429.
\<close>

theorem fresh_bucket_burst:
  assumes "s (clientKey req) = None" and "real n = CAPACITY"
  shows "fetch s (clientKey req) now = \<lparr>tokens = CAPACITY, last_ms = now\<rparr> \<and>
         verdicts (replicate n (req, now)) s = replicate n Next \<and>
         verdicts (replicate (Suc n) (req, now)) s = replicate n Next @ [Respond 429 errorBody]"
proof -
  let ?k = "clientKey req"
  let ?s1 = "s(?k \<mapsto> \<lparr>tokens = CAPACITY - cost, last_ms = now\<rparr>)"
  from assms(2) obtain m where n: "n = Suc m"
    by (cases n) (simp_all add: CAPACITY_def)
  have first: "tokenBucket req now s = (Next, ?s1)"
    using assms(1) by (rule tokenBucket_fresh)
  have "?s1 ?k = Some \<lparr>tokens = real m, last_ms = now\<rparr>"
    using assms(2) n by (simp add: cost_def)
  with burst_admitted [of ?s1 req m now m]
  have rest: "verdicts (replicate m (req, now)) ?s1 = replicate m Next"
    and after: "run (replicate m (req, now)) ?s1 ?k = Some \<lparr>tokens = 0, last_ms = now\<rparr>"
    by simp_all
  have a: "verdicts (replicate n (req, now)) s = replicate n Next"
    by (simp add: n first rest)
  have "run (replicate n (req, now)) s ?k = Some \<lparr>tokens = 0, last_ms = now\<rparr>"
    by (simp add: n first after)
  with tokenBucket_reject [of "run (replicate n (req, now)) s" req "\<lparr>tokens = 0, last_ms = now\<rparr>" now]
  have final: "fst (tokenBucket req now (run (replicate n (req, now)) s)) = Respond 429 errorBody"
    by (simp add: cost_def)
  have "replicate (Suc n) (req, now) = replicate n (req, now) @ [(req, now)]"
    by (simp add: replicate_append_same)
  then have "verdicts (replicate (Suc n) (req, now)) s = replicate n Next @ [Respond 429 errorBody]"
    by (simp only: verdicts_append a) (simp add: final)
  with a assms(1) show ?thesis
    by (simp add: fetch_def)
qed

theorem fresh_bucket_burst_witness:
  "(Map.empty :: store) (clientKey req_k) = None \<and> real 50 = CAPACITY \<and>
   verdicts (replicate 51 (req_k, 0)) Map.empty = replicate 50 Next @ [Respond 429 errorBody]"
  using fresh_bucket_burst [of Map.empty req_k 50 0] by (simp add: CAPACITY_def)

text \<open>
  Claim C3. A bucket holds 0 tokens and was last refilled at \<open>t0\<close> (milliseconds).
  The next request for its key, \<open>d > 0\<close> seconds later, is admitted exactly when
  \<open>d * RATE \<ge> cost\<close>.
\<close>

theorem linear_refill:
  assumes "s (clientKey req) = Some \<lparr>tokens = 0, last_ms = t0\<rparr>" and "0 < d"
  shows "fst (tokenBucket req (t0 + d * 1000) s) = Next \<longleftrightarrow> cost \<le> d * RATE"
  using assms by (simp add: tokenBucket_def fetch_def refill_def CAPACITY_def RATE_def cost_def Let_def)

theorem linear_refill_witness:
  "[''k'' \<mapsto> \<lparr>tokens = 0, last_ms = 7000\<rparr>] (clientKey req_k) = Some \<lparr>tokens = 0, last_ms = 7000\<rparr> \<and>
   (0::real) < 1 / 10 \<and>
   fst (tokenBucket req_k (7000 + 1 / 10 * 1000) [''k'' \<mapsto> \<lparr>tokens = 0, last_ms = 7000\<rparr>]) = Next"
  using linear_refill [of "[''k'' \<mapsto> \<lparr>tokens = 0, last_ms = 7000\<rparr>]" req_k 7000 "1 / 10"]
  by (simp add: cost_def RATE_def)

text \<open>
  Claim C4. The scenario of the spec with the constants of the source (capacity 50,
  10 tokens per second, cost 1), for the key \<^verbatim>\<open>k\<close> on the empty store: 50 requests
  at time 0 are admitted and leave 0 tokens; the 51st at time 0 is answered with 429;
  the 52nd at 500 ms finds 5 tokens refilled, is admitted and leaves 4.
\<close>

theorem concrete_scenario:
  "verdicts (replicate 50 (req_k, 0)) Map.empty = replicate 50 Next \<and>
   run (replicate 50 (req_k, 0)) Map.empty ''k'' = Some \<lparr>tokens = 0, last_ms = 0\<rparr> \<and>
   verdicts (replicate 50 (req_k, 0) @ [(req_k, 0), (req_k, 500)]) Map.empty =
     replicate 50 Next @ [Respond 429 errorBody, Next] \<and>
   refill 500 \<lparr>tokens = 0, last_ms = 0\<rparr> = \<lparr>tokens = 5, last_ms = 500\<rparr> \<and>
   run (replicate 50 (req_k, 0) @ [(req_k, 0), (req_k, 500)]) Map.empty ''k'' =
     Some \<lparr>tokens = 4, last_ms = 500\<rparr>"
proof -
  let ?s1 = "[''k'' \<mapsto> \<lparr>tokens = 49, last_ms = 0\<rparr>] :: store"
  let ?s50 = "run (replicate 50 (req_k, 0)) Map.empty"
  have first: "tokenBucket req_k 0 Map.empty = (Next, ?s1)"
    using tokenBucket_fresh [of Map.empty req_k 0] by (simp add: CAPACITY_def cost_def)
  have "?s1 (clientKey req_k) = Some \<lparr>tokens = real 49, last_ms = 0\<rparr>"
    by simp
  with burst_admitted [of ?s1 req_k 49 0 49]
  have rest: "verdicts (replicate 49 (req_k, 0)) ?s1 = replicate 49 Next"
    and after: "run (replicate 49 (req_k, 0)) ?s1 ''k'' = Some \<lparr>tokens = 0, last_ms = 0\<rparr>"
    by simp_all
  have unroll: "replicate 50 (req_k, 0::real) = (req_k, 0) # replicate 49 (req_k, 0)"
    "replicate 50 Next = Next # replicate 49 Next"
    by (simp_all add: numeral_eq_Suc)
  have v50: "verdicts (replicate 50 (req_k, 0)) Map.empty = replicate 50 Next"
    using first rest by (simp add: unroll)
  have s50: "?s50 ''k'' = Some \<lparr>tokens = 0, last_ms = 0\<rparr>"
    using first after by (simp add: unroll)
  have c51: "tokenBucket req_k 0 ?s50 = (Respond 429 errorBody, ?s50)"
    using s50 by (simp add: tokenBucket_def fetch_def refill_def cost_def fun_upd_idem)
  have r: "refill 500 \<lparr>tokens = 0, last_ms = 0\<rparr> = \<lparr>tokens = 5, last_ms = 500\<rparr>"
    by (simp add: refill_def CAPACITY_def RATE_def)
  have c52: "tokenBucket req_k 500 ?s50 = (Next, ?s50(''k'' \<mapsto> \<lparr>tokens = 4, last_ms = 500\<rparr>))"
    using s50 by (simp add: tokenBucket_def fetch_def r cost_def)
  show ?thesis
    using v50 s50 c51 c52 r by (simp add: verdicts_append run_append)
qed

subsection \<open>Clock readings that do not advance\<close>

text \<open>
  Claim C5. A call ends in one of its two effects for every request, clock reading
  and store. When the clock reading is not later than the bucket's last refill, the
  refill step leaves the bucket as it is, and the call charges the bucket or answers
  429 from the tokens it already holds.
\<close>

theorem backward_clock:
  "(fst (tokenBucket req now s) = Next \<or> fst (tokenBucket req now s) = Respond 429 errorBody) \<and>
   (now \<le> last_ms b \<longrightarrow> refill now b = b) \<and>
   (s (clientKey req) = Some b \<and> now \<le> last_ms b \<longrightarrow>
      tokenBucket req now s =
        (if cost \<le> tokens b
         then (Next, s(clientKey req \<mapsto> b\<lparr>tokens := tokens b - cost\<rparr>))
         else (Respond 429 errorBody, s(clientKey req \<mapsto> b))))"
  by (simp add: tokenBucket_def Let_def fetch_def refill_not_later)

theorem backward_clock_witness:
  "[''k'' \<mapsto> \<lparr>tokens = 3, last_ms = 9000\<rparr>] (clientKey req_k) = Some \<lparr>tokens = 3, last_ms = 9000\<rparr> \<and>
   (8000::real) \<le> last_ms \<lparr>tokens = 3, last_ms = 9000\<rparr> \<and>
   refill 8000 \<lparr>tokens = 3, last_ms = 9000\<rparr> = \<lparr>tokens = 3, last_ms = 9000\<rparr> \<and>
   tokenBucket req_k 8000 [''k'' \<mapsto> \<lparr>tokens = 3, last_ms = 9000\<rparr>] =
     (Next, [''k'' \<mapsto> \<lparr>tokens = 2, last_ms = 9000\<rparr>])"
  using backward_clock [of req_k 8000 "[''k'' \<mapsto> \<lparr>tokens = 3, last_ms = 9000\<rparr>]" "\<lparr>tokens = 3, last_ms = 9000\<rparr>"]
  by (simp add: cost_def)

subsection \<open>Rejection\<close>

text \<open>
  Claim C6. When the bucket holds fewer than \<open>cost\<close> tokens after the refill step,
  the call answers 429 and does not call \<^verbatim>\<open>next()\<close>, and the bucket it leaves in
  the store is the refilled one, with nothing subtracted.
\<close>

theorem reject_below_cost:
  assumes "tokens (refill now (fetch s (clientKey req) now)) < cost"
  shows "tokenBucket req now s =
           (Respond 429 errorBody, s(clientKey req \<mapsto> refill now (fetch s (clientKey req) now))) \<and>
         fst (tokenBucket req now s) \<noteq> Next \<and>
         (\<exists>b. snd (tokenBucket req now s) (clientKey req) = Some b \<and>
              tokens b = tokens (refill now (fetch s (clientKey req) now)))"
  using assms by (simp add: tokenBucket_def Let_def)

theorem reject_below_cost_witness:
  "tokens (refill 9050 (fetch [''k'' \<mapsto> \<lparr>tokens = 0, last_ms = 9000\<rparr>] (clientKey req_k) 9050)) < cost \<and>
   tokenBucket req_k 9050 [''k'' \<mapsto> \<lparr>tokens = 0, last_ms = 9000\<rparr>] =
     (Respond 429 errorBody, [''k'' \<mapsto> \<lparr>tokens = 1 / 2, last_ms = 9050\<rparr>])"
  using reject_below_cost [of 9050 "[''k'' \<mapsto> \<lparr>tokens = 0, last_ms = 9000\<rparr>]" req_k]
  by (simp add: fetch_def refill_def CAPACITY_def RATE_def cost_def)

subsection \<open>Key isolation\<close>

lemma tokenBucket_other_key:
  "clientKey req \<noteq> k \<Longrightarrow> snd (tokenBucket req now s) k = s k"
  by (simp add: tokenBucket_def Let_def)

lemma run_other_key:
  "\<forall>c \<in> set calls. clientKey (fst c) \<noteq> k \<Longrightarrow> run calls s k = s k"
  by (induction calls s rule: run.induct) (simp_all add: tokenBucket_other_key)

lemma tokenBucket_local:
  assumes "s (clientKey req) = s' (clientKey req)"
  shows "fst (tokenBucket req now s) = fst (tokenBucket req now s')"
    and "snd (tokenBucket req now s) (clientKey req) = snd (tokenBucket req now s') (clientKey req)"
  using assms by (simp_all add: tokenBucket_def Let_def fetch_def)

lemma verdicts_local:
  "\<forall>c \<in> set calls. clientKey (fst c) = k \<Longrightarrow> s k = s' k \<Longrightarrow>
   verdicts calls s = verdicts calls s' \<and> run calls s k = run calls s' k"
proof (induction calls arbitrary: s s')
  case Nil
  then show ?case by simp
next
  case (Cons c calls)
  obtain req now where c: "c = (req, now)"
    by (cases c)
  from Cons.prems c have k: "clientKey req = k" and same: "s (clientKey req) = s' (clientKey req)"
    by simp_all
  have "verdicts calls (snd (tokenBucket req now s)) = verdicts calls (snd (tokenBucket req now s')) \<and>
        run calls (snd (tokenBucket req now s)) k = run calls (snd (tokenBucket req now s')) k"
  proof (rule Cons.IH)
    show "\<forall>c \<in> set calls. clientKey (fst c) = k"
      using Cons.prems(1) by simp
    show "snd (tokenBucket req now s) k = snd (tokenBucket req now s') k"
      using tokenBucket_local(2) [of s req s' now] same k by simp
  qed
  with tokenBucket_local(1) [of s req s' now] same show ?case
    by (simp add: c)
qed

text \<open>
  Claim C7. Let \<open>A\<close> and \<open>B\<close> be distinct keys. Any sequence of calls for key \<open>A\<close>
  leaves the bucket of \<open>B\<close> as it was, and any following sequence of calls for key
  \<open>B\<close> gets the verdicts it would have got without the calls for \<open>A\<close>.
\<close>

theorem key_isolation:
  assumes "\<forall>c \<in> set callsA. clientKey (fst c) = A"
    and "\<forall>c \<in> set callsB. clientKey (fst c) = B"
    and "A \<noteq> B"
  shows "run callsA s B = s B \<and> verdicts callsB (run callsA s) = verdicts callsB s"
proof -
  from assms(1,3) have "\<forall>c \<in> set callsA. clientKey (fst c) \<noteq> B"
    by simp
  then have "run callsA s B = s B"
    by (rule run_other_key)
  with verdicts_local [of callsB B "run callsA s" s] assms(2) show ?thesis
    by simp
qed

theorem key_isolation_witness:
  "clientKey req_a = ''10.0.0.7'' \<and> clientKey req_k = ''k'' \<and> ''10.0.0.7'' \<noteq> ''k'' \<and>
   run [(req_a, 0), (req_a, 5)] [''k'' \<mapsto> \<lparr>tokens = 0, last_ms = 7\<rparr>] ''k'' = Some \<lparr>tokens = 0, last_ms = 7\<rparr> \<and>
   verdicts [(req_k, 7)] (run [(req_a, 0), (req_a, 5)] [''k'' \<mapsto> \<lparr>tokens = 0, last_ms = 7\<rparr>]) =
     [Respond 429 errorBody]"
  using key_isolation [of "[(req_a, 0), (req_a, 5)]" "''10.0.0.7''" "[(req_k, 7)]" "''k''"
      "[''k'' \<mapsto> \<lparr>tokens = 0, last_ms = 7\<rparr>]"]
  by (simp add: tokenBucket_def fetch_def refill_def cost_def CAPACITY_def RATE_def Let_def)

subsection \<open>Time of the last refill\<close>

lemma refill_last:
  "last_ms (refill now b) = last_ms b \<or> last_ms b < last_ms (refill now b) \<and> last_ms (refill now b) = now"
  by (simp add: refill_def Let_def)

lemma tokenBucket_last:
  assumes "s k = Some b"
  shows "\<exists>b'. snd (tokenBucket req now s) k = Some b' \<and>
           (last_ms b' = last_ms b \<or> last_ms b < last_ms b' \<and> last_ms b' = now)"
proof (cases "clientKey req = k")
  case True
  with assms refill_last [of now b] show ?thesis
    by (auto simp: tokenBucket_def Let_def fetch_def)
next
  case False
  with assms show ?thesis
    by (simp add: tokenBucket_other_key)
qed

lemma run_last:
  "s k = Some b \<Longrightarrow> \<exists>b'. run calls s k = Some b' \<and> last_ms b \<le> last_ms b'"
proof (induction calls arbitrary: s b)
  case Nil
  then show ?case by simp
next
  case (Cons c calls)
  obtain req now where c: "c = (req, now)"
    by (cases c)
  from tokenBucket_last [of s k b req now] Cons.prems
  obtain b1 where b1: "snd (tokenBucket req now s) k = Some b1" and le: "last_ms b \<le> last_ms b1"
    by auto
  from Cons.IH [of "snd (tokenBucket req now s)" b1] b1 obtain b' where "run calls (snd (tokenBucket req now s)) k = Some b'"
    and "last_ms b1 \<le> last_ms b'"
    by blast
  with le show ?case
    by (auto simp: c)
qed

text \<open>
  Claim C10. The last-refill time of a bucket never decreases over a sequence of
  calls, whatever the clock readings: one call leaves it as it is or sets it to a
  strictly later clock reading, and a new bucket gets the clock reading of the call
  that creates it.
\<close>

theorem last_refill_monotone:
  "(s k = Some b \<longrightarrow> (\<exists>b'. run calls s k = Some b' \<and> last_ms b \<le> last_ms b')) \<and>
   (s k = Some b \<longrightarrow>
      (\<exists>b'. snd (tokenBucket req now s) k = Some b' \<and>
         (last_ms b' = last_ms b \<or> last_ms b < last_ms b' \<and> last_ms b' = now))) \<and>
   (s (clientKey req) = None \<longrightarrow>
      (\<exists>b'. snd (tokenBucket req now s) (clientKey req) = Some b' \<and> last_ms b' = now))"
proof -
  have "\<exists>b'. snd (tokenBucket req now s) (clientKey req) = Some b' \<and> last_ms b' = now"
    if "s (clientKey req) = None"
    using tokenBucket_fresh [of s req now] that by simp
  then show ?thesis
    using run_last tokenBucket_last by blast
qed

theorem last_refill_monotone_witness:
  "[''k'' \<mapsto> \<lparr>tokens = 3, last_ms = 9000\<rparr>] ''k'' = Some \<lparr>tokens = 3, last_ms = 9000\<rparr> \<and>
   Map.empty (clientKey req_a) = (None :: bucket option) \<and>
   (\<exists>b'. run [(req_k, 8000), (req_k, 9500), (req_k, 9200)] [''k'' \<mapsto> \<lparr>tokens = 3, last_ms = 9000\<rparr>] ''k'' = Some b' \<and>
      9000 \<le> last_ms b') \<and>
   (\<exists>b'. snd (tokenBucket req_a 8000 Map.empty) (clientKey req_a) = Some b' \<and> last_ms b' = 8000)"
  using last_refill_monotone [of "[''k'' \<mapsto> \<lparr>tokens = 3, last_ms = 9000\<rparr>]" "''k''"
      "\<lparr>tokens = 3, last_ms = 9000\<rparr>" "[(req_k, 8000), (req_k, 9500), (req_k, 9200)]" req_k 8000]
    last_refill_monotone [of Map.empty "''k''" "\<lparr>tokens = 3, last_ms = 9000\<rparr>" "[]" req_a 8000]
  by simp

end
